theory Spec2Isabelle
  imports Main "HOL-Library.Word"
begin

section \<open>Python and Cython values\<close>

text \<open>
  The exceptions the modelled code can raise. A function that can raise returns
  \<open>py_error + 'a\<close>, with \<open>Inl\<close> for the exception.
\<close>

datatype py_error = IndexError | OverflowError | ValueError

text \<open>
  A Cython \<open>cdef int\<close> is a 32-bit C int. Assigning a Python integer to it converts the
  value and raises OverflowError when it does not fit; arithmetic between two C ints
  wraps around (\<open>32 word\<close>).
\<close>

definition in_c_int :: "int \<Rightarrow> bool" where
  "in_c_int v = (- (2 ^ 31) \<le> v \<and> v < 2 ^ 31)"

definition py_getitem :: "'a list \<Rightarrow> int \<Rightarrow> py_error + 'a" where
  \<comment> \<open>\<open>xs[i]\<close> on a Python list: \<open>-1\<close> is the last element, \<open>-len\<close> the first.\<close>
  "py_getitem xs i =
     (if 0 \<le> i
      then (if nat i < length xs then Inr (xs ! nat i) else Inl IndexError)
      else (if nat (- i) \<le> length xs then Inr (xs ! (length xs - nat (- i)))
            else Inl IndexError))"

section \<open>Server (src/load_balancer/server.pyx)\<close>

text \<open>
  The attribute declarations of the \<open>cdef class Server\<close> are not part of the sources;
  the attributes are integers, a string and a boolean as the specification lists them.
\<close>

record server =
  name :: string
  weight :: int
  current_weight :: int
  effective_weight :: int
  active_connections :: int
  healthy :: bool

definition Server_init :: "string \<Rightarrow> int \<Rightarrow> server" where
  "Server_init n w =
     \<lparr>name = n, weight = w, current_weight = 0, effective_weight = w,
      active_connections = 0, healthy = True\<rparr>"

definition get_name :: "server \<Rightarrow> string" where
  "get_name s = name s"

definition get_weight :: "server \<Rightarrow> int" where
  "get_weight s = weight s"

definition increment_connections :: "server \<Rightarrow> server" where
  "increment_connections s = s\<lparr>active_connections := active_connections s + 1\<rparr>"

definition decrement_connections :: "server \<Rightarrow> server" where
  "decrement_connections s =
     (if active_connections s > 0
      then s\<lparr>active_connections := active_connections s - 1\<rparr>
      else s)"

definition is_healthy :: "server \<Rightarrow> bool" where
  "is_healthy s = healthy s"

definition set_healthy :: "server \<Rightarrow> bool \<Rightarrow> server" where
  "set_healthy s status = s\<lparr>healthy := status\<rparr>"

text \<open>A sequence of connection-count calls on one server.\<close>

datatype conn_op = Increment | Decrement

fun apply_conn_op :: "server \<Rightarrow> conn_op \<Rightarrow> server" where
  "apply_conn_op s Increment = increment_connections s"
| "apply_conn_op s Decrement = decrement_connections s"

definition run_conn_ops :: "server \<Rightarrow> conn_op list \<Rightarrow> server" where
  "run_conn_ops s ops = foldl apply_conn_op s ops"

section \<open>LoadBalancer\<close>

text \<open>
  The balancer holds references to its Server objects. The list \<open>servers\<close> is the store
  of these objects (each position one distinct object), and a reference to a server is
  its position in the list: the selection functions return \<open>Some i\<close> for the object at
  position \<open>i\<close> and \<open>None\<close> for Python's None. The fields declared \<open>cdef int\<close> are
  32-bit words.
\<close>

record load_balancer =
  servers :: "server list"
  current_index :: "32 word"
  total_weight :: "32 word"
  cumulative_weights :: "int list"
  strategy :: "32 word"

fun total_weight_loop :: "server list \<Rightarrow> int \<Rightarrow> py_error + int" where
  "total_weight_loop [] tot = Inr tot"
| "total_weight_loop (s # rest) tot =
     (if healthy s
      then (if in_c_int (tot + weight s)
            then total_weight_loop rest (tot + weight s)
            else Inl OverflowError)
      else total_weight_loop rest tot)"

definition calculate_total_weight :: "load_balancer \<Rightarrow> py_error + 32 word" where
  "calculate_total_weight lb =
     (case total_weight_loop (servers lb) 0 of
        Inl e \<Rightarrow> Inl e
      | Inr tot \<Rightarrow> Inr (word_of_int tot))"

fun cumulative_weights_loop ::
  "server list \<Rightarrow> int list \<Rightarrow> int \<Rightarrow> py_error + int list" where
  "cumulative_weights_loop [] weight_acc cumulative = Inr weight_acc"
| "cumulative_weights_loop (s # rest) weight_acc cumulative =
     (if healthy s
      then (if in_c_int (cumulative + weight s)
            then cumulative_weights_loop rest
                   (weight_acc @ [cumulative + weight s]) (cumulative + weight s)
            else Inl OverflowError)
      else cumulative_weights_loop rest weight_acc cumulative)"

definition calculate_cumulative_weights :: "load_balancer \<Rightarrow> py_error + int list" where
  "calculate_cumulative_weights lb = cumulative_weights_loop (servers lb) [] 0"

definition LoadBalancer_init :: "server list \<Rightarrow> int \<Rightarrow> py_error + load_balancer" where
  "LoadBalancer_init ss strat =
     (let lb0 = \<lparr>servers = ss, current_index = 0, total_weight = 0,
                 cumulative_weights = [], strategy = 0\<rparr>
      in case calculate_total_weight lb0 of
           Inl e \<Rightarrow> Inl e
         | Inr t \<Rightarrow>
             if \<not> in_c_int strat then Inl OverflowError
             else
               (let lb1 = lb0\<lparr>total_weight := t, strategy := word_of_int strat\<rparr>
                in case calculate_cumulative_weights lb1 of
                     Inl e \<Rightarrow> Inl e
                   | Inr c \<Rightarrow> Inr (lb1\<lparr>cumulative_weights := c\<rparr>)))"

definition get_healthy_server :: "load_balancer \<Rightarrow> nat list" where
  "get_healthy_server lb =
     filter (\<lambda>i. healthy (servers lb ! i)) [0..<length (servers lb)]"

definition round_robin :: "load_balancer \<Rightarrow> load_balancer \<times> (py_error + nat option)" where
  "round_robin lb =
     (let h = get_healthy_server lb
      in if h = [] then (lb, Inr None)
         else
           (let s = h ! nat (sint (current_index lb) mod int (length h))
            in (lb\<lparr>current_index := current_index lb + 1\<rparr>, Inr (Some s))))"

text \<open>
  The loop of the weighted round-robin: \<open>seen\<close> are the servers already visited (as the
  loop left them), the second list is the rest of \<open>self.servers\<close>. \<open>best\<close> refers to a
  visited server. The loop stops with OverflowError when the running total leaves the
  C int range; the current server's \<open>current_weight\<close> is already updated then.
\<close>

fun wrr_loop ::
  "server list \<Rightarrow> server list \<Rightarrow> int \<Rightarrow> nat option
     \<Rightarrow> server list \<times> (py_error + int \<times> nat option)" where
  "wrr_loop seen [] tot best = (seen, Inr (tot, best))"
| "wrr_loop seen (s # rest) tot best =
     (if \<not> healthy s then wrr_loop (seen @ [s]) rest tot best
      else
        (let s' = s\<lparr>current_weight := current_weight s + effective_weight s\<rparr>;
             seen' = seen @ [s']
         in if \<not> in_c_int (tot + effective_weight s')
            then (seen' @ rest, Inl OverflowError)
            else
              (let best' =
                     (case best of
                        None \<Rightarrow> Some (length seen)
                      | Some b \<Rightarrow>
                          if current_weight s' > current_weight (seen' ! b)
                          then Some (length seen) else Some b)
               in wrr_loop seen' rest (tot + effective_weight s') best')))"

definition weighted_round_robin ::
  "load_balancer \<Rightarrow> load_balancer \<times> (py_error + nat option)" where
  "weighted_round_robin lb =
     (case wrr_loop [] (servers lb) 0 None of
        (ss, Inl e) \<Rightarrow> (lb\<lparr>servers := ss\<rparr>, Inl e)
      | (ss, Inr (tot, None)) \<Rightarrow> (lb\<lparr>servers := ss\<rparr>, Inr None)
      | (ss, Inr (tot, Some b)) \<Rightarrow>
          (lb\<lparr>servers :=
                ss[b := (ss ! b)\<lparr>current_weight := current_weight (ss ! b) - tot\<rparr>]\<rparr>,
           Inr (Some b)))"

text \<open>
  The random strategies take the value that \<open>self.random.randint(0, b)\<close> returned as the
  argument \<open>d\<close>; randint returns some \<open>d\<close> with \<open>0 \<le> d \<le> b\<close> and raises ValueError when
  \<open>b < 0\<close>.
\<close>

definition random_strategy ::
  "load_balancer \<Rightarrow> int \<Rightarrow> load_balancer \<times> (py_error + nat option)" where
  "random_strategy lb d =
     (let h = get_healthy_server lb
      in if h = [] then (lb, Inr None)
         else (lb, map_sum id Some (py_getitem h d)))"

fun weighted_random_scan :: "int list \<Rightarrow> int \<Rightarrow> nat \<Rightarrow> nat option" where
  "weighted_random_scan [] random_value i = None"
| "weighted_random_scan (c # cs) random_value i =
     (if random_value < c then Some i else weighted_random_scan cs random_value (Suc i))"

definition weighted_random ::
  "load_balancer \<Rightarrow> int \<Rightarrow> load_balancer \<times> (py_error + nat option)" where
  "weighted_random lb d =
     (let h = get_healthy_server lb
      in if h = [] then (lb, Inr None)
         else if sint (total_weight lb - 1) < 0 then (lb, Inl ValueError)
         else
           (case weighted_random_scan (cumulative_weights lb) d 0 of
              Some i \<Rightarrow> (lb, map_sum id Some (py_getitem h (int i)))
            | None \<Rightarrow> (lb, map_sum id Some (py_getitem h (- 1)))))"

fun least_connections_loop ::
  "server list \<Rightarrow> server list \<Rightarrow> nat option \<Rightarrow> nat option" where
  "least_connections_loop seen [] best = best"
| "least_connections_loop seen (s # rest) best =
     (if \<not> healthy s then least_connections_loop (seen @ [s]) rest best
      else
        (let seen' = seen @ [s];
             best' =
               (case best of
                  None \<Rightarrow> Some (length seen)
                | Some b \<Rightarrow>
                    if active_connections s < active_connections (seen' ! b)
                    then Some (length seen) else Some b)
         in least_connections_loop seen' rest best'))"

definition least_connections ::
  "load_balancer \<Rightarrow> load_balancer \<times> (py_error + nat option)" where
  "least_connections lb = (lb, Inr (least_connections_loop [] (servers lb) None))"

definition refresh_weight :: "load_balancer \<Rightarrow> load_balancer \<times> py_error option" where
  "refresh_weight lb =
     (case calculate_total_weight lb of
        Inl e \<Rightarrow> (lb, Some e)
      | Inr t \<Rightarrow>
          (let lb1 = lb\<lparr>total_weight := t\<rparr>
           in case calculate_cumulative_weights lb1 of
                Inl e \<Rightarrow> (lb1, Some e)
              | Inr c \<Rightarrow> (lb1\<lparr>cumulative_weights := c\<rparr>, None)))"

definition get_next_server ::
  "load_balancer \<Rightarrow> int \<Rightarrow> load_balancer \<times> (py_error + nat option)" where
  "get_next_server lb d =
     (if strategy lb = 0 then round_robin lb
      else if strategy lb = 1 then weighted_round_robin lb
      else if strategy lb = 2 then random_strategy lb d
      else if strategy lb = 3 then weighted_random lb d
      else if strategy lb = 4 then least_connections lb
      else (lb, Inr (if servers lb \<noteq> [] then Some 0 else None)))"

text \<open>\<open>n\<close> consecutive (serialized) calls of the round-robin strategy, with their results.\<close>

fun round_robin_calls ::
  "nat \<Rightarrow> load_balancer \<Rightarrow> load_balancer \<times> (py_error + nat option) list" where
  "round_robin_calls 0 lb = (lb, [])"
| "round_robin_calls (Suc n) lb =
     (case round_robin lb of
        (lb1, r) \<Rightarrow> (case round_robin_calls n lb1 of (lb2, rs) \<Rightarrow> (lb2, r # rs)))"


definition add_effective_weight :: "server \<Rightarrow> server" where
  "add_effective_weight s =
     (if healthy s then s\<lparr>current_weight := current_weight s + effective_weight s\<rparr> else s)"




text \<open>
  The operations of Server and LoadBalancer that a caller can run on a balancer and
  its servers, and the attributes of a server other than \<open>current_weight\<close>.
\<close>

datatype lb_op =
  Op_increment_connections nat
| Op_decrement_connections nat
| Op_set_healthy nat bool
| Op_refresh_weight
| Op_get_next_server int

definition update_server ::
  "nat \<Rightarrow> (server \<Rightarrow> server) \<Rightarrow> load_balancer \<Rightarrow> load_balancer" where
  "update_server i f lb =
     (if i < length (servers lb) then lb\<lparr>servers := (servers lb)[i := f (servers lb ! i)]\<rparr>
      else lb)"

fun lb_step :: "load_balancer \<Rightarrow> lb_op \<Rightarrow> load_balancer" where
  "lb_step lb (Op_increment_connections i) = update_server i increment_connections lb"
| "lb_step lb (Op_decrement_connections i) = update_server i decrement_connections lb"
| "lb_step lb (Op_set_healthy i status) = update_server i (\<lambda>s. set_healthy s status) lb"
| "lb_step lb Op_refresh_weight = fst (refresh_weight lb)"
| "lb_step lb (Op_get_next_server d) = fst (get_next_server lb d)"

definition server_static :: "server \<Rightarrow> string \<times> int \<times> int \<times> int \<times> bool" where
  "server_static s = (name s, weight s, effective_weight s, active_connections s, healthy s)"

section \<open>Properties of Server\<close>

lemma Server_init_simps [simp]:
  "name (Server_init n w) = n"
  "weight (Server_init n w) = w"
  "current_weight (Server_init n w) = 0"
  "effective_weight (Server_init n w) = w"
  "active_connections (Server_init n w) = 0"
  "healthy (Server_init n w) = True"
  by (simp_all add: Server_init_def)

lemma apply_conn_op_nonneg:
  "0 \<le> active_connections s \<Longrightarrow> 0 \<le> active_connections (apply_conn_op s c)"
  by (cases c) (simp_all add: increment_connections_def decrement_connections_def)

lemma foldl_conn_ops_nonneg:
  "0 \<le> active_connections s \<Longrightarrow> 0 \<le> active_connections (foldl apply_conn_op s ops)"
  by (induction ops arbitrary: s) (simp_all add: apply_conn_op_nonneg)

text \<open>
  C8: the connection counter of a server starts at 0, \<open>increment_connections\<close> adds 1,
  \<open>decrement_connections\<close> subtracts 1 when the counter is positive and changes nothing
  otherwise, and after any sequence of increments and decrements on a new server the
  counter is not negative.
\<close>

theorem active_connections_never_negative:
  "active_connections (Server_init n w) = 0
   \<and> increment_connections s = s\<lparr>active_connections := active_connections s + 1\<rparr>
   \<and> decrement_connections s =
       (if 0 < active_connections s
        then s\<lparr>active_connections := active_connections s - 1\<rparr> else s)
   \<and> 0 \<le> active_connections (run_conn_ops (Server_init n w) ops)"
  by (simp add: increment_connections_def decrement_connections_def run_conn_ops_def
      foldl_conn_ops_nonneg)

section \<open>Properties of LoadBalancer\<close>

subsection \<open>No healthy server\<close>

lemma get_healthy_server_empty:
  "\<forall>s \<in> set (servers lb). \<not> healthy s \<Longrightarrow> get_healthy_server lb = []"
  by (simp add: get_healthy_server_def filter_empty_conv)

lemma wrr_loop_unhealthy:
  "\<forall>s \<in> set rest. \<not> healthy s \<Longrightarrow>
     wrr_loop seen rest tot best = (seen @ rest, Inr (tot, best))"
  by (induction rest arbitrary: seen) simp_all

lemma least_connections_loop_unhealthy:
  "\<forall>s \<in> set rest. \<not> healthy s \<Longrightarrow> least_connections_loop seen rest best = best"
  by (induction rest arbitrary: seen) simp_all

lemma weighted_round_robin_unhealthy:
  "\<forall>s \<in> set (servers lb). \<not> healthy s \<Longrightarrow> weighted_round_robin lb = (lb, Inr None)"
  by (simp add: weighted_round_robin_def wrr_loop_unhealthy)

text \<open>
  C7: when no server of the list is healthy, \<open>get_next_server\<close> returns None under each
  of the five strategies 0 to 4, whatever the random draw, and leaves the balancer as
  it was.
\<close>

theorem get_next_server_all_unhealthy:
  assumes "\<forall>s \<in> set (servers lb). \<not> healthy s"
    and "strategy lb \<in> {0, 1, 2, 3, 4}"
  shows "get_next_server lb d = (lb, Inr None)"
  using assms
  by (auto simp add: get_next_server_def round_robin_def random_strategy_def
      weighted_random_def least_connections_def get_healthy_server_empty
      weighted_round_robin_unhealthy least_connections_loop_unhealthy)

theorem get_next_server_all_unhealthy_witness:
  "map healthy [set_healthy (Server_init ''a'' 5) False, set_healthy (Server_init ''b'' 3) False]
     = [False, False]
   \<and> map (\<lambda>k. snd (get_next_server
        \<lparr>servers = [set_healthy (Server_init ''a'' 5) False,
                    set_healthy (Server_init ''b'' 3) False],
         current_index = 0, total_weight = 0, cumulative_weights = [], strategy = k\<rparr> 0))
       [0, 1, 2, 3, 4]
     = [Inr None, Inr None, Inr None, Inr None, Inr None]"
proof -
  have "snd (get_next_server
        \<lparr>servers = [set_healthy (Server_init ''a'' 5) False,
                    set_healthy (Server_init ''b'' 3) False],
         current_index = 0, total_weight = 0, cumulative_weights = [], strategy = k\<rparr> 0)
        = Inr None" if "k \<in> {0, 1, 2, 3, 4}" for k
    using get_next_server_all_unhealthy [of "\<lparr>servers = [set_healthy (Server_init ''a'' 5) False,
                    set_healthy (Server_init ''b'' 3) False],
         current_index = 0, total_weight = 0, cumulative_weights = [], strategy = k\<rparr>" 0] that
    by (simp add: set_healthy_def)
  then show ?thesis by (simp add: set_healthy_def)
qed

subsection \<open>A strategy value that names no strategy\<close>

lemma sint_word_of_int_c_int:
  "in_c_int k \<Longrightarrow> sint (word_of_int k :: 32 word) = k"
  by (simp add: in_c_int_def signed_of_int signed_take_bit_int_eq_self)

lemma get_next_server_other_strategy:
  "strategy lb \<notin> {0, 1, 2, 3, 4} \<Longrightarrow>
     get_next_server lb d = (lb, Inr (if servers lb \<noteq> [] then Some 0 else None))"
  by (simp add: get_next_server_def)

lemma LoadBalancer_init_fields:
  assumes "LoadBalancer_init ss strat = Inr lb"
  shows "servers lb = ss \<and> current_index lb = 0 \<and> strategy lb = word_of_int strat
         \<and> in_c_int strat"
  using assms
  by (auto simp add: LoadBalancer_init_def Let_def split: sum.splits if_splits)

text \<open>
  C10: a balancer constructed with a strategy value outside 0 to 4 keeps that value
  (nothing but the constructor assigns \<open>strategy\<close>); in every state \<open>lb\<close> with that strategy
  \<open>get_next_server\<close> returns the first server of the list when the list is not empty,
  whatever its health, and None when the list is empty, and changes nothing.
\<close>

theorem get_next_server_unknown_strategy:
  assumes "LoadBalancer_init ss strat = Inr lb0"
    and "strat \<notin> {0, 1, 2, 3, 4}"
    and "strategy lb = strategy lb0"
  shows "get_next_server lb d = (lb, Inr (if servers lb = [] then None else Some 0))"
proof -
  from assms(1) have f: "strategy lb0 = word_of_int strat" "in_c_int strat"
    using LoadBalancer_init_fields by blast+
  have "sint (strategy lb) = strat"
    using f assms(3) by (simp add: sint_word_of_int_c_int)
  with assms(2) have "strategy lb \<notin> {0, 1, 2, 3, 4}"
    by auto
  then show ?thesis
    by (simp add: get_next_server_other_strategy)
qed

theorem get_next_server_unknown_strategy_witness:
  "LoadBalancer_init [set_healthy (Server_init ''a'' 5) False, Server_init ''b'' 3] 7
     = Inr \<lparr>servers = [set_healthy (Server_init ''a'' 5) False, Server_init ''b'' 3],
            current_index = 0, total_weight = 3, cumulative_weights = [3], strategy = 7\<rparr>
   \<and> get_next_server
        \<lparr>servers = [set_healthy (Server_init ''a'' 5) False, Server_init ''b'' 3],
         current_index = 0, total_weight = 3, cumulative_weights = [3], strategy = 7\<rparr> 0
     = (\<lparr>servers = [set_healthy (Server_init ''a'' 5) False, Server_init ''b'' 3],
         current_index = 0, total_weight = 3, cumulative_weights = [3], strategy = 7\<rparr>,
        Inr (Some 0))"
proof -
  have i: "LoadBalancer_init [set_healthy (Server_init ''a'' 5) False, Server_init ''b'' 3] 7
     = Inr \<lparr>servers = [set_healthy (Server_init ''a'' 5) False, Server_init ''b'' 3],
            current_index = 0, total_weight = 3, cumulative_weights = [3], strategy = 7\<rparr>"
    by (simp add: LoadBalancer_init_def calculate_total_weight_def
        calculate_cumulative_weights_def set_healthy_def in_c_int_def)
  have n: "(7::int) \<notin> {0, 1, 2, 3, 4}" by simp
  show ?thesis
    using get_next_server_unknown_strategy [OF i n refl, of 0] i by simp
qed

subsection \<open>Round-robin\<close>

lemma sint_succ_c_int:
  "sint (w :: 32 word) < 2 ^ 31 - 1 \<Longrightarrow> sint (w + 1) = sint w + 1"
proof -
  assume a: "sint w < 2 ^ 31 - 1"
  have lo: "- (2 ^ 31) \<le> sint w"
    using sint_ge [of w] by simp
  have "w + 1 = word_of_int (sint w + 1)"
    by simp
  then have "sint (w + 1) = sint (word_of_int (sint w + 1) :: 32 word)"
    by simp
  also have "\<dots> = sint w + 1"
    using a lo by (intro sint_word_of_int_c_int) (simp add: in_c_int_def)
  finally show ?thesis .
qed


lemma get_healthy_server_current_index [simp]:
  "get_healthy_server (lb\<lparr>current_index := c\<rparr>) = get_healthy_server lb"
  by (simp add: get_healthy_server_def)

lemma distinct_get_healthy_server: "distinct (get_healthy_server lb)"
  by (simp add: get_healthy_server_def)

lemma round_robin_calls_index:
  assumes "get_healthy_server lb \<noteq> []"
    and "sint (current_index lb) + int k \<le> 2 ^ 31 - 1"
  shows "round_robin_calls k lb =
     (lb\<lparr>current_index := current_index lb + of_nat k\<rparr>,
      map (\<lambda>j. Inr (Some (get_healthy_server lb !
             nat ((sint (current_index lb) + int j) mod int (length (get_healthy_server lb))))))
        [0..<k])"
  using assms
proof (induction k arbitrary: lb)
  case 0
  then show ?case by simp
next
  case (Suc k)
  let ?lb1 = "lb\<lparr>current_index := current_index lb + 1\<rparr>"
  have s: "sint (current_index lb + 1) = sint (current_index lb) + 1"
    using Suc.prems(2) by (intro sint_succ_c_int) simp
  have h1: "get_healthy_server ?lb1 \<noteq> []"
    using Suc.prems(1) by simp
  have b1: "sint (current_index ?lb1) + int k \<le> 2 ^ 31 - 1"
    using Suc.prems(2) s by simp
  have rr: "round_robin lb = (?lb1, Inr (Some (get_healthy_server lb !
       nat (sint (current_index lb) mod int (length (get_healthy_server lb))))))"
    using Suc.prems(1) by (simp add: round_robin_def Let_def)
  show ?case
    unfolding round_robin_calls.simps rr
    apply (simp only: prod.case Suc.IH [OF h1 b1] map_upt_Suc)
    apply (simp add: s add.assoc)
    done
qed

lemma map_index_rotate:
  assumes "xs \<noteq> []"
  shows "map (\<lambda>j. xs ! nat ((c + int j) mod int (length xs))) [0..<length xs]
         = rotate (nat (c mod int (length xs))) xs"
proof (rule nth_equalityI)
  show "length (map (\<lambda>j. xs ! nat ((c + int j) mod int (length xs))) [0..<length xs])
        = length (rotate (nat (c mod int (length xs))) xs)"
    by simp
next
  fix i
  assume "i < length (map (\<lambda>j. xs ! nat ((c + int j) mod int (length xs))) [0..<length xs])"
  then have i: "i < length xs" by simp
  have n: "0 < int (length xs)" using assms by simp
  have "int ((nat (c mod int (length xs)) + i) mod length xs)
        = (c mod int (length xs) + int i) mod int (length xs)"
    using n by (simp add: zmod_int)
  also have "\<dots> = (c + int i) mod int (length xs)"
    by (simp add: mod_add_left_eq)
  finally have "(nat (c mod int (length xs)) + i) mod length xs
        = nat ((c + int i) mod int (length xs))"
    by linarith
  then show "map (\<lambda>j. xs ! nat ((c + int j) mod int (length xs))) [0..<length xs] ! i
        = rotate (nat (c mod int (length xs))) xs ! i"
    using i by (simp add: nth_rotate)
qed

text \<open>
  C3 (as amended): on an empty healthy set the round-robin strategy returns None and
  leaves the cursor as it is; otherwise it returns the healthy server at index cursor
  mod (healthy count) and adds 1 to the cursor (a C int: the sum wraps at \<open>2 ^ 31\<close>), so
  the cursor grows by 1 on every call that returns a server while it is below the
  largest C int. Over a fixed set of N healthy servers, N consecutive calls that do not
  pass the largest C int return the healthy servers rotated by cursor mod N: each
  exactly once.
\<close>

theorem round_robin_cursor:
  "(get_healthy_server lb = [] \<longrightarrow> round_robin lb = (lb, Inr None))
   \<and> (get_healthy_server lb \<noteq> [] \<longrightarrow>
        round_robin lb =
          (lb\<lparr>current_index := current_index lb + 1\<rparr>,
           Inr (Some (get_healthy_server lb !
              nat (sint (current_index lb) mod int (length (get_healthy_server lb)))))))
   \<and> (get_healthy_server lb \<noteq> [] \<and> sint (current_index lb) < 2 ^ 31 - 1 \<longrightarrow>
        sint (current_index (fst (round_robin lb))) = sint (current_index lb) + 1)
   \<and> (get_healthy_server lb \<noteq> []
        \<and> sint (current_index lb) + int (length (get_healthy_server lb)) \<le> 2 ^ 31 - 1 \<longrightarrow>
        snd (round_robin_calls (length (get_healthy_server lb)) lb) =
          map (\<lambda>i. Inr (Some i))
            (rotate (nat (sint (current_index lb) mod int (length (get_healthy_server lb))))
               (get_healthy_server lb))
        \<and> distinct (snd (round_robin_calls (length (get_healthy_server lb)) lb))
        \<and> set (snd (round_robin_calls (length (get_healthy_server lb)) lb)) =
            (\<lambda>i. Inr (Some i)) ` set (get_healthy_server lb))"
proof (intro conjI impI)
  assume "get_healthy_server lb = []"
  then show "round_robin lb = (lb, Inr None)"
    by (simp add: round_robin_def)
next
  assume "get_healthy_server lb \<noteq> []"
  then show "round_robin lb =
          (lb\<lparr>current_index := current_index lb + 1\<rparr>,
           Inr (Some (get_healthy_server lb !
              nat (sint (current_index lb) mod int (length (get_healthy_server lb))))))"
    by (simp add: round_robin_def Let_def)
next
  assume "get_healthy_server lb \<noteq> [] \<and> sint (current_index lb) < 2 ^ 31 - 1"
  then show "sint (current_index (fst (round_robin lb))) = sint (current_index lb) + 1"
    by (simp add: round_robin_def Let_def sint_succ_c_int)
next
  let ?h = "get_healthy_server lb"
  let ?rs = "snd (round_robin_calls (length ?h) lb)"
  assume a: "?h \<noteq> [] \<and> sint (current_index lb) + int (length ?h) \<le> 2 ^ 31 - 1"
  then have "?rs = map (\<lambda>i. Inr (Some i))
      (map (\<lambda>j. ?h ! nat ((sint (current_index lb) + int j) mod int (length ?h)))
         [0..<length ?h])"
    by (simp add: round_robin_calls_index comp_def)
  then have e: "?rs = map (\<lambda>i. Inr (Some i))
      (rotate (nat (sint (current_index lb) mod int (length ?h))) ?h)"
    using a by (simp add: map_index_rotate)
  show "?rs = map (\<lambda>i. Inr (Some i))
      (rotate (nat (sint (current_index lb) mod int (length ?h))) ?h)"
    by (rule e)
  show "distinct ?rs"
    unfolding e by (simp add: distinct_map distinct_get_healthy_server inj_on_def)
  show "set ?rs = (\<lambda>i. Inr (Some i)) ` set ?h"
    unfolding e by simp
qed

theorem round_robin_cursor_witness:
  "get_healthy_server
     \<lparr>servers = [Server_init ''a'' 1, set_healthy (Server_init ''b'' 1) False,
                 Server_init ''c'' 1],
      current_index = 1, total_weight = 2, cumulative_weights = [1, 2], strategy = 0\<rparr>
     = [0, 2]
   \<and> snd (round_robin_calls 2
     \<lparr>servers = [Server_init ''a'' 1, set_healthy (Server_init ''b'' 1) False,
                 Server_init ''c'' 1],
      current_index = 1, total_weight = 2, cumulative_weights = [1, 2], strategy = 0\<rparr>)
     = [Inr (Some 2), Inr (Some 0)]"
proof -
  let ?lb = "\<lparr>servers = [Server_init ''a'' 1, set_healthy (Server_init ''b'' 1) False,
                 Server_init ''c'' 1],
      current_index = 1, total_weight = 2, cumulative_weights = [1, 2], strategy = 0\<rparr>"
  have g: "get_healthy_server ?lb = [0, 2]"
    by (simp add: get_healthy_server_def set_healthy_def upt_rec numeral_eq_Suc)
  have p: "get_healthy_server ?lb \<noteq> []
        \<and> sint (current_index ?lb) + int (length (get_healthy_server ?lb)) \<le> 2 ^ 31 - 1"
    by (simp add: g)
  have e: "snd (round_robin_calls (length (get_healthy_server ?lb)) ?lb) =
          map (\<lambda>i. Inr (Some i))
            (rotate (nat (sint (current_index ?lb) mod int (length (get_healthy_server ?lb))))
               (get_healthy_server ?lb))"
    using round_robin_cursor [of ?lb] p by blast
  have r: "map (\<lambda>i. Inr (Some i))
            (rotate (nat (sint (current_index ?lb) mod int (length (get_healthy_server ?lb))))
               (get_healthy_server ?lb)) = [Inr (Some 2), Inr (Some 0) :: py_error + nat option]"
    by (simp add: g)
  have l: "length (get_healthy_server ?lb) = 2"
    by (simp add: g)
  from e [unfolded r, unfolded l] g show ?thesis
    by (rule conjI [rotated])
qed

text \<open>
  The claim as stated fails: a call on an empty healthy set returns None and does not
  increment the cursor.
\<close>

theorem round_robin_none_keeps_cursor:
  "snd (round_robin
     \<lparr>servers = [set_healthy (Server_init ''a'' 1) False], current_index = 0,
      total_weight = 0, cumulative_weights = [], strategy = 0\<rparr>) = Inr None
   \<and> current_index (fst (round_robin
     \<lparr>servers = [set_healthy (Server_init ''a'' 1) False], current_index = 0,
      total_weight = 0, cumulative_weights = [], strategy = 0\<rparr>)) = 0
   \<and> current_index (fst (round_robin
     \<lparr>servers = [set_healthy (Server_init ''a'' 1) False], current_index = 0,
      total_weight = 0, cumulative_weights = [], strategy = 0\<rparr>)) \<noteq> 0 + 1"
  by (simp add: round_robin_def get_healthy_server_def set_healthy_def)

subsection \<open>Weighted round-robin\<close>







lemma healthy_add_effective_weight [simp]:
  "healthy (add_effective_weight s) = healthy s"
  by (simp add: add_effective_weight_def)



subsection \<open>Weighted random\<close>








subsection \<open>What selection leaves unchanged\<close>

lemma server_static_current_weight [simp]:
  "server_static (s\<lparr>current_weight := c\<rparr>) = server_static s"
  by (simp add: server_static_def)

lemma wrr_loop_static:
  "map server_static (fst (wrr_loop seen rest tot best)) = map server_static (seen @ rest)"
  by (induction rest arbitrary: seen tot best) (simp_all add: Let_def)

lemma map_static_update:
  "map server_static (ss[b := (ss ! b)\<lparr>current_weight := c\<rparr>]) = map server_static ss"
proof (cases "b < length ss")
  case True
  then show ?thesis
    by (simp add: map_update list_update_same_conv)
next
  case False
  then have "ss[b := (ss ! b)\<lparr>current_weight := c\<rparr>] = ss"
    by (intro list_update_beyond) simp
  then show ?thesis by simp
qed

lemma weighted_round_robin_static:
  "map server_static (servers (fst (weighted_round_robin lb))) = map server_static (servers lb)"
proof -
  obtain ss r where l: "wrr_loop [] (servers lb) 0 None = (ss, r)"
    by (cases "wrr_loop [] (servers lb) 0 None")
  have "map server_static ss = map server_static (servers lb)"
    using wrr_loop_static [of "[]" "servers lb" 0 None] l by simp
  then show ?thesis
    by (auto simp add: weighted_round_robin_def l map_static_update
        split: sum.splits option.splits prod.splits)
qed

lemma get_next_server_servers:
  "strategy lb \<noteq> 1 \<Longrightarrow> servers (fst (get_next_server lb d)) = servers lb"
  by (simp add: get_next_server_def round_robin_def random_strategy_def weighted_random_def
      least_connections_def Let_def split: option.splits)

lemma get_next_server_static:
  "map server_static (servers (fst (get_next_server lb d))) = map server_static (servers lb)"
  by (cases "strategy lb = 1")
    (simp_all add: get_next_server_servers, simp add: get_next_server_def weighted_round_robin_static)

lemma refresh_weight_servers:
  "servers (fst (refresh_weight lb)) = servers lb"
  by (simp add: refresh_weight_def Let_def split: sum.splits)

lemma static_effective_weight:
  "map server_static ss = map server_static ss' \<Longrightarrow>
     map effective_weight ss' = map effective_weight ss \<and> map weight ss' = map weight ss"
proof -
  assume a: "map server_static ss = map server_static ss'"
  have "map effective_weight xs = map (\<lambda>p. fst (snd (snd p))) (map server_static xs)"
    "map weight xs = map (\<lambda>p. fst (snd p)) (map server_static xs)" for xs
    by (simp_all add: server_static_def comp_def)
  with a show ?thesis by metis
qed

lemma update_server_weights:
  assumes "\<And>s. effective_weight (f s) = effective_weight s"
    and "\<And>s. weight (f s) = weight s"
  shows "map effective_weight (servers (update_server i f lb)) = map effective_weight (servers lb)
       \<and> map weight (servers (update_server i f lb)) = map weight (servers lb)"
  using assms by (simp add: update_server_def map_update list_update_same_conv)

lemma lb_step_weights:
  "map effective_weight (servers (lb_step lb c)) = map effective_weight (servers lb)
   \<and> map weight (servers (lb_step lb c)) = map weight (servers lb)"
proof (cases c)
  case (Op_get_next_server d)
  then show ?thesis
    using static_effective_weight [OF get_next_server_static [symmetric], of lb d] by simp
qed (simp_all add: update_server_weights increment_connections_def decrement_connections_def
      set_healthy_def refresh_weight_servers)

lemma foldl_lb_step_weights:
  "map effective_weight (servers (foldl lb_step lb ops)) = map effective_weight (servers lb)
   \<and> map weight (servers (foldl lb_step lb ops)) = map weight (servers lb)"
  by (induction ops arbitrary: lb) (simp_all add: lb_step_weights)

text \<open>
  C9: \<open>effective_weight\<close> is set to the weight by the constructor of Server and no
  operation of Server or LoadBalancer assigns it: the connection-count and health
  mutators keep it, \<open>refresh_weight\<close> keeps the servers, and \<open>get_next_server\<close> keeps
  every attribute of every server but \<open>current_weight\<close> (also when it raises), and keeps
  the servers altogether unless the strategy is the weighted round-robin. So in every
  state reached from a constructed balancer each \<open>effective_weight\<close> is the configured
  weight.
\<close>

theorem effective_weight_never_mutated:
  "effective_weight (Server_init n w) = w
   \<and> effective_weight (increment_connections s) = effective_weight s
   \<and> effective_weight (decrement_connections s) = effective_weight s
   \<and> effective_weight (set_healthy s status) = effective_weight s
   \<and> servers (fst (refresh_weight lb)) = servers lb
   \<and> map server_static (servers (fst (get_next_server lb d))) = map server_static (servers lb)
   \<and> (strategy lb \<noteq> 1 \<longrightarrow> servers (fst (get_next_server lb d)) = servers lb)
   \<and> (LoadBalancer_init (map (\<lambda>(n, w). Server_init n w) config) strat = Inr lb0 \<longrightarrow>
        map effective_weight (servers (foldl lb_step lb0 ops)) = map snd config
        \<and> map weight (servers (foldl lb_step lb0 ops)) = map snd config)"
proof -
  have "map effective_weight (servers (foldl lb_step lb0 ops)) = map snd config
        \<and> map weight (servers (foldl lb_step lb0 ops)) = map snd config"
    if "LoadBalancer_init (map (\<lambda>(n, w). Server_init n w) config) strat = Inr lb0"
  proof -
    have "servers lb0 = map (\<lambda>(n, w). Server_init n w) config"
      using that LoadBalancer_init_fields by blast
    then have "map effective_weight (servers lb0) = map snd config"
      "map weight (servers lb0) = map snd config"
      by (simp_all add: comp_def case_prod_unfold)
    then show ?thesis
      by (simp add: foldl_lb_step_weights)
  qed
  then show ?thesis
    by (simp add: increment_connections_def decrement_connections_def set_healthy_def
        refresh_weight_servers get_next_server_static get_next_server_servers)
qed

theorem effective_weight_never_mutated_witness:
  "LoadBalancer_init (map (\<lambda>(n, w). Server_init n w) [(''a'', 5), (''b'', 3)]) 1
     = Inr \<lparr>servers = [Server_init ''a'' 5, Server_init ''b'' 3], current_index = 0,
            total_weight = 8, cumulative_weights = [5, 8], strategy = 1\<rparr>
   \<and> map effective_weight (servers (foldl lb_step
        \<lparr>servers = [Server_init ''a'' 5, Server_init ''b'' 3], current_index = 0,
         total_weight = 8, cumulative_weights = [5, 8], strategy = 1\<rparr>
        [Op_get_next_server 0, Op_increment_connections 0, Op_set_healthy 1 False,
         Op_refresh_weight, Op_get_next_server 0, Op_decrement_connections 0])) = [5, 3]
   \<and> map current_weight (servers (foldl lb_step
        \<lparr>servers = [Server_init ''a'' 5, Server_init ''b'' 3], current_index = 0,
         total_weight = 8, cumulative_weights = [5, 8], strategy = 1\<rparr>
        [Op_get_next_server 0, Op_increment_connections 0, Op_set_healthy 1 False,
         Op_refresh_weight, Op_get_next_server 0, Op_decrement_connections 0])) = [- 3, 3]"
proof -
  let ?lb = "\<lparr>servers = [Server_init ''a'' 5, Server_init ''b'' 3], current_index = 0,
         total_weight = 8, cumulative_weights = [5, 8], strategy = 1\<rparr>"
  let ?ops = "[Op_get_next_server 0, Op_increment_connections 0, Op_set_healthy 1 False,
         Op_refresh_weight, Op_get_next_server 0, Op_decrement_connections 0]"
  have i: "LoadBalancer_init (map (\<lambda>(n, w). Server_init n w) [(''a'', 5), (''b'', 3)]) 1
     = Inr ?lb"
    by (simp add: LoadBalancer_init_def calculate_total_weight_def
        calculate_cumulative_weights_def in_c_int_def)
  have "LoadBalancer_init (map (\<lambda>(n, w). Server_init n w) [(''a'', 5), (''b'', 3)]) 1 = Inr ?lb
      \<longrightarrow> map effective_weight (servers (foldl lb_step ?lb ?ops)) = map snd [(''a'', 5), (''b'', 3)]
        \<and> map weight (servers (foldl lb_step ?lb ?ops)) = map snd [(''a'', 5), (''b'', 3)]"
    using effective_weight_never_mutated [of _ _ _ _ _ _ "[(''a'', 5), (''b'', 3)]" 1 ?lb ?ops]
    by blast
  with i have e: "map effective_weight (servers (foldl lb_step ?lb ?ops)) = [5, 3]"
    by simp
  have c: "map current_weight (servers (foldl lb_step ?lb ?ops)) = [- 3, 3]"
    by (simp add: get_next_server_def weighted_round_robin_def Server_init_def in_c_int_def
        update_server_def increment_connections_def decrement_connections_def set_healthy_def
        refresh_weight_def calculate_total_weight_def calculate_cumulative_weights_def)
  from i e c show ?thesis
    by blast
qed

end
